theory Spec2Isabelle
  imports
    Main
    "HOL-Library.Multiset"
    "HOL-Library.Sublist"
    "HOL-Library.Char_ord"
    "HOL-Library.List_Lexorder"
begin

section \<open>Rows of the three tables\<close>

text \<open>
  The backend (\<^verbatim>\<open>backend/src/index.ts\<close>) keeps three SQLite tables.  A table is modelled
  as the list of its rows in insertion order; the primary key \<^verbatim>\<open>id\<close> is a string.
  Strings are lists of \<^typ>\<open>char\<close>, read as code units in the range 0..255 (ASCII and
  Latin-1); timestamps are the ISO strings the code stores, compared as text like SQLite
  does.
\<close>

record KnowledgeBaseRow =
  kb_id :: string
  kb_category :: string
  kb_question :: string
  kb_answer :: string
  kb_created_at :: string
  kb_updated_at :: string

record SecurityQuestionRow =
  sq_id :: string
  sq_text :: string
  sq_category :: "string option"
  sq_created_at :: string

record GeneratedAnswerRow =
  ga_id :: string
  question_id :: string
  question_text :: string
  answer_text :: string
  ga_category :: "string option"
  ga_created_at :: string

record db =
  knowledge_base :: "KnowledgeBaseRow list"
  security_questions :: "SecurityQuestionRow list"
  generated_answers :: "GeneratedAnswerRow list"

section \<open>String primitives of the host language\<close>

text \<open>The class \<^verbatim>\<open>\s\<close> of the regular expressions, which is also what \<^verbatim>\<open>trim\<close> strips:
  tab, line feed, vertical tab, form feed, carriage return, space and no-break space.\<close>

definition is_space :: "char \<Rightarrow> bool" where
  "is_space c = (c = CHR 0x09 \<or> c = CHR 0x0A \<or> c = CHR 0x0B \<or> c = CHR 0x0C \<or> c = CHR 0x0D
     \<or> c = CHR 0x20 \<or> c = CHR 0xA0)"

text \<open>The class \<^verbatim>\<open>[a-z0-9]\<close>.\<close>

definition is_alnum :: "char \<Rightarrow> bool" where
  "is_alnum c = (c \<in> set ''abcdefghijklmnopqrstuvwxyz0123456789'')"

text \<open>\<^verbatim>\<open>toLowerCase\<close>: the letters A-Z and the accented capitals 0xC0-0xDE (without the
  multiplication sign 0xD7) go to their lower-case partners, 32 code units up; every other
  code unit stays.\<close>

definition upper_chars :: string where
  "upper_chars = ''ABCDEFGHIJKLMNOPQRSTUVWXYZ'' @
     [CHR 0xC0, CHR 0xC1, CHR 0xC2, CHR 0xC3, CHR 0xC4, CHR 0xC5, CHR 0xC6, CHR 0xC7, CHR 0xC8, CHR 0xC9,
      CHR 0xCA, CHR 0xCB, CHR 0xCC, CHR 0xCD, CHR 0xCE, CHR 0xCF, CHR 0xD0, CHR 0xD1, CHR 0xD2, CHR 0xD3,
      CHR 0xD4, CHR 0xD5, CHR 0xD6, CHR 0xD8, CHR 0xD9, CHR 0xDA, CHR 0xDB, CHR 0xDC, CHR 0xDD, CHR 0xDE]"

definition lower_chars :: string where
  "lower_chars = ''abcdefghijklmnopqrstuvwxyz'' @
     [CHR 0xE0, CHR 0xE1, CHR 0xE2, CHR 0xE3, CHR 0xE4, CHR 0xE5, CHR 0xE6, CHR 0xE7, CHR 0xE8, CHR 0xE9,
      CHR 0xEA, CHR 0xEB, CHR 0xEC, CHR 0xED, CHR 0xEE, CHR 0xEF, CHR 0xF0, CHR 0xF1, CHR 0xF2, CHR 0xF3,
      CHR 0xF4, CHR 0xF5, CHR 0xF6, CHR 0xF8, CHR 0xF9, CHR 0xFA, CHR 0xFB, CHR 0xFC, CHR 0xFD, CHR 0xFE]"

definition lower_char :: "char \<Rightarrow> char" where
  "lower_char c = (case map_of (zip upper_chars lower_chars) c of Some l \<Rightarrow> l | None \<Rightarrow> c)"

definition toLowerCase :: "string \<Rightarrow> string" where
  "toLowerCase text = map lower_char text"

text \<open>\<^verbatim>\<open>.replace(/[^a-z0-9\s]/g, " ")\<close>\<close>

definition replace_other :: "string \<Rightarrow> string" where
  "replace_other text = map (\<lambda>c. if is_alnum c \<or> is_space c then c else CHR '' '') text"

text \<open>\<^verbatim>\<open>.split(/\s+/)\<close>: the pieces between maximal whitespace runs.  A run at the start or
  at the end of the text leaves an empty piece there, and the empty text gives one empty
  piece.  The flag says that the previous character belonged to a separator run.\<close>

fun split_from :: "bool \<Rightarrow> string \<Rightarrow> string list" where
  "split_from insep [] = [[]]"
| "split_from insep (c # cs) =
     (if is_space c then (if insep then split_from True cs else [] # split_from True cs)
      else (case split_from False cs of
              t # ts \<Rightarrow> (c # t) # ts
            | [] \<Rightarrow> [[c]]))"

definition split_ws :: "string \<Rightarrow> string list" where
  "split_ws text = split_from False text"

text \<open>\<^verbatim>\<open>trim\<close>\<close>

definition js_trim :: "string \<Rightarrow> string" where
  "js_trim text = rev (dropWhile is_space (rev (dropWhile is_space text)))"

text \<open>\<^verbatim>\<open>Array.prototype.join\<close>\<close>

fun join :: "string \<Rightarrow> string list \<Rightarrow> string" where
  "join sep [] = []"
| "join sep [x] = x"
| "join sep (x # y # ys) = x @ sep @ join sep (y # ys)"

text \<open>\<^verbatim>\<open>Array.prototype.slice(0, end)\<close>: a negative end counts from the end of the array.\<close>

definition slice0 :: "int \<Rightarrow> 'a list \<Rightarrow> 'a list" where
  "slice0 end xs = (let len = int (length xs);
                        final = (if end < 0 then max (len + end) 0 else min end len)
                    in take (nat final) xs)"

text \<open>\<^verbatim>\<open>Array.prototype.sort(cmp)\<close> is a stable sort: an element goes before the first
  element it does not compare greater than, so equal elements keep their order.\<close>

fun insert_by :: "('a \<Rightarrow> 'a \<Rightarrow> int) \<Rightarrow> 'a \<Rightarrow> 'a list \<Rightarrow> 'a list" where
  "insert_by cmp x [] = [x]"
| "insert_by cmp x (y # ys) = (if cmp x y \<le> 0 then x # y # ys else y # insert_by cmp x ys)"

definition js_sort :: "('a \<Rightarrow> 'a \<Rightarrow> int) \<Rightarrow> 'a list \<Rightarrow> 'a list" where
  "js_sort cmp xs = foldr (insert_by cmp) xs []"

text \<open>The decimal rendering of an integral number inside a template literal.\<close>

fun digits :: "nat \<Rightarrow> string" where
  "digits n = (if n < 10 then [char_of (48 + n)] else digits (n div 10) @ [char_of (48 + n mod 10)])"

definition dec :: "int \<Rightarrow> string" where
  "dec i = (if i < 0 then CHR ''-'' # digits (nat (- i)) else digits (nat i))"

section \<open>Tokenizer, scorer and context selector\<close>

definition tokenize :: "string \<Rightarrow> string list" where
  "tokenize text = filter (\<lambda>t. length t > 2) (split_ws (replace_other (toLowerCase text)))"

record scored =
  row :: KnowledgeBaseRow
  score :: nat

text \<open>The body of the \<^verbatim>\<open>map\<close> callback in \<^verbatim>\<open>getRelevantKbEntries\<close>: the loop over the tokens
  of the corpus adds one for every token the set of question tokens has.\<close>

definition score_row :: "string set \<Rightarrow> KnowledgeBaseRow \<Rightarrow> scored" where
  "score_row qTokens r =
     (let corpus = kb_question r @ '' '' @ kb_answer r;
          tokens = tokenize corpus
      in \<lparr>row = r, score = fold (\<lambda>t s. if t \<in> qTokens then s + 1 else s) tokens 0\<rparr>)"

definition rank :: "KnowledgeBaseRow list \<Rightarrow> string \<Rightarrow> scored list" where
  "rank allKb questionText =
     (let qTokens = set (tokenize questionText);
          scored = map (score_row qTokens) allKb
      in js_sort (\<lambda>a b. int (score b) - int (score a)) (filter (\<lambda>s. score s > 0) scored))"

definition getRelevantKbEntries :: "KnowledgeBaseRow list \<Rightarrow> string \<Rightarrow> int \<Rightarrow> scored list" where
  "getRelevantKbEntries allKb questionText maxEntries = slice0 maxEntries (rank allKb questionText)"

text \<open>Read from the specification's wording of the tokenizer, for comparison with
  \<^const>\<open>tokenize\<close>: lowercase, put a blank for every character outside \<^verbatim>\<open>[a-z0-9]\<close>, cut at
  whitespace runs, drop the tokens of length at most 2.  Cutting at whitespace runs yields
  the maximal blocks of non-whitespace characters, in order.\<close>

function blocks :: "string \<Rightarrow> string list" where
  "blocks text =
     (let rest = dropWhile is_space text
      in if rest = [] then []
         else takeWhile (\<lambda>c. \<not> is_space c) rest # blocks (dropWhile (\<lambda>c. \<not> is_space c) rest))"
  by pat_completeness auto
termination
proof (relation "measure length")
  fix s rest
  assume r: "rest = dropWhile is_space s" and ne: "rest \<noteq> []"
  from ne obtain c cs where rc: "rest = c # cs" by (cases rest) auto
  from r rc have "dropWhile is_space s = c # cs" by simp
  then have "\<not> is_space c" by (simp add: dropWhile_eq_Cons_conv)
  with rc have "dropWhile (\<lambda>c. \<not> is_space c) rest = dropWhile (\<lambda>c. \<not> is_space c) cs" by simp
  moreover have "length (dropWhile (\<lambda>c. \<not> is_space c) cs) \<le> length cs"
    by (rule length_dropWhile_le)
  moreover have "length rest \<le> length s" using r by (simp add: length_dropWhile_le)
  ultimately show "(dropWhile (\<lambda>c. \<not> is_space c) rest, s) \<in> measure length"
    using rc by simp
qed simp

definition tokenize_spec :: "string \<Rightarrow> string list" where
  "tokenize_spec text =
     filter (\<lambda>t. \<not> length t \<le> 2)
       (blocks (map (\<lambda>c. if is_alnum c then c else CHR '' '') (toLowerCase text)))"

section \<open>Prompt composition and the call of the generation service\<close>

text \<open>What the chat completion returns, as far as the code reads it:
  \<^verbatim>\<open>response.choices[0]?.message?.content\<close>.\<close>

datatype message = Message (content: "string option")
datatype choice = Choice (message: "message option")
datatype completion = Completion (choices: "choice list")

datatype exn = GenerationServiceError string | SqliteError string

fun err_message :: "exn \<Rightarrow> string" where
  "err_message (GenerationServiceError m) = m"
| "err_message (SqliteError m) = m"

text \<open>What a run reads from outside the database: the credential, the identifier
  source (absent when the platform has no \<^verbatim>\<open>crypto.randomUUID\<close>), the clock, and the generation
  service.  The number is the position of the call within the run, counted from 0, so the
  service and the identifier source may answer every call differently.\<close>

record env =
  OPENAI_API_KEY :: "string option"
  randomUUID :: "(nat \<Rightarrow> string) option"
  date_now :: "nat \<Rightarrow> int"
  create_completion :: "nat \<Rightarrow> string \<Rightarrow> string \<Rightarrow> exn + completion"

text \<open>\<^verbatim>\<open>xs[0]\<close> is undefined on the empty array; \<^verbatim>\<open>a ?? b\<close> takes \<^verbatim>\<open>b\<close> when \<^verbatim>\<open>a\<close> is null or
  undefined.\<close>

definition index0 :: "'a list \<Rightarrow> 'a option" where
  "index0 xs = (case xs of [] \<Rightarrow> None | x # _ \<Rightarrow> Some x)"

definition nullish :: "'a option \<Rightarrow> 'a option \<Rightarrow> 'a option" where
  "nullish a b = (case a of Some v \<Rightarrow> Some v | None \<Rightarrow> b)"

definition no_information :: string where
  "no_information = ''No information available in the knowledge base.''"

definition contextBlocks :: "KnowledgeBaseRow list \<Rightarrow> string" where
  \<open>contextBlocks context =
     join ''\<newline>\<newline>''
       (map (\<lambda>kb. ''- ['' @ kb_id kb @ ''] ('' @ kb_category kb @ '') Q: '' @ kb_question kb
                   @ ''\<newline>  A: '' @ kb_answer kb) context)\<close>

definition systemPrompt :: string where
  \<open>systemPrompt = js_trim (
     ''\<newline>    You are an information security analyst answering questionnaire questions '' @
     ''using ONLY the provided knowledge base.'' @
     ''\<newline>    If the knowledge base does not contain sufficient information to answer '' @
     ''a question, respond exactly with:'' @
     ''\<newline>    "No information available in the knowledge base."'' @
     ''\<newline>    Do not invent policies or controls that are not in the context.'' @
     ''\<newline>    Answer in a concise but complete sentence or short paragraph as appropriate.'' @
     ''\<newline>    '')\<close>

definition userPrompt :: "SecurityQuestionRow \<Rightarrow> KnowledgeBaseRow list \<Rightarrow> string" where
  \<open>userPrompt question context = js_trim (
     ''\<newline>    Security questionnaire question:'' @
     ''\<newline>    "'' @ sq_text question @ ''"'' @
     ''\<newline>'' @
     ''\<newline>    Relevant knowledge base entries:'' @
     ''\<newline>    '' @ (if contextBlocks context = [] then ''(none found)'' else contextBlocks context) @
     ''\<newline>'' @
     ''\<newline>    Using ONLY the information above, answer the question. '' @
     ''If nothing is relevant, reply exactly with:'' @
     ''\<newline>    "No information available in the knowledge base."'' @
     ''\<newline>    '')\<close>

definition answerText_of :: "completion \<Rightarrow> string" where
  "answerText_of response =
     (case map_option js_trim
             (Option.bind (Option.bind (index0 (choices response)) message) content) of
        Some t \<Rightarrow> t
      | None \<Rightarrow> no_information)"

definition category_of :: "SecurityQuestionRow \<Rightarrow> KnowledgeBaseRow list \<Rightarrow> string option" where
  "category_of question context =
     nullish (nullish (map_option kb_category (index0 context)) (sq_category question)) None"

definition generateAnswerFromLlm ::
  "env \<Rightarrow> nat \<Rightarrow> SecurityQuestionRow \<Rightarrow> KnowledgeBaseRow list \<Rightarrow> exn + (string \<times> string option)" where
  "generateAnswerFromLlm e n question context =
     (case create_completion e n systemPrompt (userPrompt question context) of
        Inl err \<Rightarrow> Inl err
      | Inr response \<Rightarrow> Inr (answerText_of response, category_of question context))"

section \<open>The routes that write\<close>

datatype body = Count nat | Row KnowledgeBaseRow | Plain | Failure string "string option"

datatype reply = Reply nat body

text \<open>\<^verbatim>\<open>INSERT INTO generated_answers\<close>: the primary key refuses an identifier that a stored
  answer already has; a new row goes to the end of the table.\<close>

definition insert_answer :: "GeneratedAnswerRow \<Rightarrow> db \<Rightarrow> exn + db" where
  "insert_answer r s =
     (if ga_id r \<in> set (map ga_id (generated_answers s))
      then Inl (SqliteError ''UNIQUE constraint failed: generated_answers.id'')
      else Inr (s\<lparr>generated_answers := generated_answers s @ [r]\<rparr>))"

text \<open>\<^verbatim>\<open>`ans_${crypto.randomUUID?.() ?? `${Date.now()}_${q.id}`}`\<close>\<close>

definition mint_id :: "env \<Rightarrow> nat \<Rightarrow> SecurityQuestionRow \<Rightarrow> string" where
  "mint_id e n q =
     ''ans_'' @ (case randomUUID e of
                   Some uuid \<Rightarrow> uuid n
                 | None \<Rightarrow> dec (date_now e n) @ ''_'' @ sq_id q)"

text \<open>\<^verbatim>\<open>SELECT * FROM security_questions ORDER BY created_at ASC\<close>; rows with the same
  timestamp stay in table order.\<close>

definition select_questions :: "db \<Rightarrow> SecurityQuestionRow list" where
  "select_questions s = sort_key sq_created_at (security_questions s)"

text \<open>The loop of \<^verbatim>\<open>POST /api/answers/generate\<close> over the questions still to do: \<open>n\<close> is the
  number of the iteration and \<open>generatedCount\<close> the counter.  An exception leaves the loop
  with the database as it is at that moment.\<close>

fun generate_loop ::
  "env \<Rightarrow> string \<Rightarrow> nat \<Rightarrow> SecurityQuestionRow list \<Rightarrow> db \<Rightarrow> nat \<Rightarrow> (exn + nat) \<times> db" where
  "generate_loop e now n [] s generatedCount = (Inr generatedCount, s)"
| "generate_loop e now n (q # qs) s generatedCount =
     (let relevant = map row (getRelevantKbEntries (knowledge_base s) (sq_text q) 5)
      in case generateAnswerFromLlm e n q relevant of
           Inl err \<Rightarrow> (Inl err, s)
         | Inr (answerText, category) \<Rightarrow>
             (case insert_answer
                     \<lparr>ga_id = mint_id e n q, question_id = sq_id q, question_text = sq_text q,
                      answer_text = answerText, ga_category = category, ga_created_at = now\<rparr> s of
                Inl err \<Rightarrow> (Inl err, s)
              | Inr s' \<Rightarrow> generate_loop e now (n + 1) qs s' (generatedCount + 1)))"

definition key_configured :: "env \<Rightarrow> bool" where
  "key_configured e = (case OPENAI_API_KEY e of None \<Rightarrow> False | Some k \<Rightarrow> k \<noteq> [])"

definition answers_generate :: "env \<Rightarrow> string \<Rightarrow> db \<Rightarrow> reply \<times> db" where
  "answers_generate e now s =
     (if \<not> key_configured e
      then (Reply 500 (Failure ''OPENAI_API_KEY is not configured on the server.'' None), s)
      else
        let questions = select_questions s
        in if length questions = 0
           then (Reply 400 (Failure ''No security questions found.'' None), s)
           else
             (case generate_loop e now 0 questions (s\<lparr>generated_answers := []\<rparr>) 0 of
                (Inr generatedCount, s') \<Rightarrow> (Reply 200 (Count generatedCount), s')
              | (Inl err, s') \<Rightarrow>
                  (Reply 500 (Failure ''Failed to generate answers'' (Some (err_message err))), s')))"

text \<open>\<^verbatim>\<open>POST /api/questions/upload\<close>: every entry is inserted with a null category, and
  on a conflict of the id the stored row takes the entry's text and category.\<close>

record question_entry =
  qe_id :: string
  qe_text :: string

fun upsert_question :: "SecurityQuestionRow \<Rightarrow> SecurityQuestionRow list \<Rightarrow> SecurityQuestionRow list" where
  "upsert_question new [] = [new]"
| "upsert_question new (r # rs) =
     (if sq_id r = sq_id new
      then r\<lparr>sq_text := sq_text new, sq_category := sq_category new\<rparr> # rs
      else r # upsert_question new rs)"

definition questions_upload :: "string \<Rightarrow> question_entry list \<Rightarrow> db \<Rightarrow> reply \<times> db" where
  "questions_upload now questions s =
     (Reply 200 (Count (length questions)),
      s\<lparr>security_questions :=
          fold (\<lambda>q. upsert_question
                       \<lparr>sq_id = qe_id q, sq_text = qe_text q, sq_category = None, sq_created_at = now\<rparr>)
            questions (security_questions s)\<rparr>)"

text \<open>The knowledge-base routes: bulk upload (an upsert), create, update and delete.\<close>

record kb_entry =
  ke_id :: string
  ke_category :: string
  ke_question :: string
  ke_answer :: string

fun upsert_kb :: "KnowledgeBaseRow \<Rightarrow> KnowledgeBaseRow list \<Rightarrow> KnowledgeBaseRow list" where
  "upsert_kb new [] = [new]"
| "upsert_kb new (r # rs) =
     (if kb_id r = kb_id new
      then r\<lparr>kb_category := kb_category new, kb_question := kb_question new,
             kb_answer := kb_answer new, kb_updated_at := kb_updated_at new\<rparr> # rs
      else r # upsert_kb new rs)"

definition kb_row :: "string \<Rightarrow> kb_entry \<Rightarrow> KnowledgeBaseRow" where
  "kb_row now e = \<lparr>kb_id = ke_id e, kb_category = ke_category e, kb_question = ke_question e,
     kb_answer = ke_answer e, kb_created_at = now, kb_updated_at = now\<rparr>"

definition kb_upload :: "string \<Rightarrow> kb_entry list \<Rightarrow> db \<Rightarrow> reply \<times> db" where
  "kb_upload now entries s =
     (Reply 200 (Count (length entries)),
      s\<lparr>knowledge_base := fold (\<lambda>e. upsert_kb (kb_row now e)) entries (knowledge_base s)\<rparr>)"

definition kb_create :: "string \<Rightarrow> kb_entry \<Rightarrow> db \<Rightarrow> reply \<times> db" where
  "kb_create now e s =
     (if ke_id e = [] \<or> ke_category e = [] \<or> ke_question e = [] \<or> ke_answer e = []
      then (Reply 400 (Failure ''id, category, question, and answer are required'' None), s)
      else if ke_id e \<in> set (map kb_id (knowledge_base s))
      then (Reply 400 (Failure ''Failed to create KB entry''
                         (Some ''UNIQUE constraint failed: knowledge_base.id'')), s)
      else (Reply 201 (Row (kb_row now e)),
            s\<lparr>knowledge_base := knowledge_base s @ [kb_row now e]\<rparr>))"

definition kb_update ::
  "string \<Rightarrow> string \<Rightarrow> string option \<Rightarrow> string option \<Rightarrow> string option \<Rightarrow> db \<Rightarrow> reply \<times> db" where
  "kb_update now kbId category question answer s =
     (case find (\<lambda>r. kb_id r = kbId) (knowledge_base s) of
        None \<Rightarrow> (Reply 404 (Failure ''KB entry not found'' None), s)
      | Some existing \<Rightarrow>
          let newCategory = (case category of Some c \<Rightarrow> c | None \<Rightarrow> kb_category existing);
              newQuestion = (case question of Some c \<Rightarrow> c | None \<Rightarrow> kb_question existing);
              newAnswer = (case answer of Some c \<Rightarrow> c | None \<Rightarrow> kb_answer existing);
              set_fields = (\<lambda>r. r\<lparr>kb_category := newCategory, kb_question := newQuestion,
                                   kb_answer := newAnswer, kb_updated_at := now\<rparr>)
          in (Reply 200 (Row (set_fields existing)),
              s\<lparr>knowledge_base :=
                  map (\<lambda>r. if kb_id r = kbId then set_fields r else r) (knowledge_base s)\<rparr>))"

definition kb_delete :: "string \<Rightarrow> db \<Rightarrow> reply \<times> db" where
  "kb_delete kbId s =
     (if kbId \<in> set (map kb_id (knowledge_base s))
      then (Reply 200 Plain,
            s\<lparr>knowledge_base := filter (\<lambda>r. kb_id r \<noteq> kbId) (knowledge_base s)\<rparr>)
      else (Reply 404 (Failure ''KB entry not found'' None), s))"

text \<open>Every request that can change the database.\<close>

datatype request =
    KbUpload string "kb_entry list"
  | KbCreate string kb_entry
  | KbUpdate string string "string option" "string option" "string option"
  | KbDelete string
  | QuestionsUpload string "question_entry list"
  | AnswersGenerate env string

fun handle :: "request \<Rightarrow> db \<Rightarrow> reply \<times> db" where
  "handle (KbUpload now entries) s = kb_upload now entries s"
| "handle (KbCreate now e) s = kb_create now e s"
| "handle (KbUpdate now kbId category question answer) s = kb_update now kbId category question answer s"
| "handle (KbDelete kbId) s = kb_delete kbId s"
| "handle (QuestionsUpload now questions) s = questions_upload now questions s"
| "handle (AnswersGenerate e now) s = answers_generate e now s"

section \<open>Notions used to state the properties\<close>

text \<open>The identifiers a run mints for the questions \<open>qs\<close> when its first iteration has
  number \<open>n\<close>.\<close>

definition minted :: "env \<Rightarrow> nat \<Rightarrow> SecurityQuestionRow list \<Rightarrow> string list" where
  "minted e n qs = map (\<lambda>(i, q). mint_id e i q) (enumerate n qs)"

text \<open>The generation service returns a completion on the calls number \<open>n\<close> to \<open>n + k - 1\<close>,
  whatever the prompts are.\<close>

definition service_answers :: "env \<Rightarrow> nat \<Rightarrow> nat \<Rightarrow> bool" where
  "service_answers e n k =
     (\<forall>i. n \<le> i \<and> i < n + k \<longrightarrow> (\<forall>sp up. \<exists>r. create_completion e i sp up = Inr r))"

text \<open>The question row with a given id, and the entry of an upload batch that decides what
  is stored under an id: the last one with that id.\<close>

definition question_by_id :: "string \<Rightarrow> db \<Rightarrow> SecurityQuestionRow option" where
  "question_by_id i s = find (\<lambda>r. sq_id r = i) (security_questions s)"

definition last_entry :: "string \<Rightarrow> question_entry list \<Rightarrow> question_entry option" where
  "last_entry i questions = find (\<lambda>q. qe_id q = i) (rev questions)"


text \<open>A stored answer comes from call number \<open>i\<close> for the question \<open>q\<close>: it refers to the
  question, and its text is what the answer assembly makes of the completion the service
  returned for the prompt of that question.\<close>

definition produced_by ::
  "env \<Rightarrow> KnowledgeBaseRow list \<Rightarrow> GeneratedAnswerRow \<Rightarrow> nat \<times> SecurityQuestionRow \<Rightarrow> bool" where
  "produced_by e allKb a iq =
     (case iq of (i, q) \<Rightarrow>
        question_id a = sq_id q
        \<and> (\<exists>r. create_completion e i systemPrompt
                    (userPrompt q (map row (getRelevantKbEntries allKb (sq_text q) 5))) = Inr r
                \<and> answer_text a = answerText_of r))"

text \<open>A knowledge base of seven entries for the question \<^verbatim>\<open>Key rotation\<close>, with the scores
  5, 5, 3, 0, 2, 0, 4 in table order, and one entry on encryption.\<close>

definition kb_entry_of :: "string \<Rightarrow> string \<Rightarrow> string \<Rightarrow> KnowledgeBaseRow" where
  "kb_entry_of i q a = \<lparr>kb_id = i, kb_category = ''Keys'', kb_question = q, kb_answer = a,
     kb_created_at = ''2024-05-01T10:00:00.000Z'', kb_updated_at = ''2024-05-01T10:00:00.000Z''\<rparr>"

definition kb7 :: "KnowledgeBaseRow list" where
  "kb7 = [kb_entry_of ''e1'' ''Key rotation key'' ''key rotation'',
          kb_entry_of ''e2'' ''Rotation of key'' ''Key key key'',
          kb_entry_of ''e3'' ''Key key'' ''key'',
          kb_entry_of ''e4'' ''Backups'' ''Daily'',
          kb_entry_of ''e5'' ''Key'' ''rotation'',
          kb_entry_of ''e6'' ''Logs'' ''Kept'',
          kb_entry_of ''e7'' ''Key key'' ''key key'']"

definition kb_encrypt :: KnowledgeBaseRow where
  "kb_encrypt = \<lparr>kb_id = ''kb1'', kb_category = ''Encryption'', kb_question = ''Encrypt storage?'',
     kb_answer = ''We encrypt all data.'', kb_created_at = ''2024-05-01T10:00:00.000Z'',
     kb_updated_at = ''2024-05-01T10:00:00.000Z''\<rparr>"

text \<open>The user message as it leaves \<^verbatim>\<open>trim\<close>, for a question text and a rendered context
  block.\<close>

definition user_body :: "string \<Rightarrow> string \<Rightarrow> string" where
  \<open>user_body qtext blk =
     ''Security questionnaire question:'' @
     ''\<newline>    "'' @ qtext @ ''"'' @
     ''\<newline>'' @
     ''\<newline>    Relevant knowledge base entries:'' @
     ''\<newline>    '' @ blk @
     ''\<newline>'' @
     ''\<newline>    Using ONLY the information above, answer the question. '' @
     ''If nothing is relevant, reply exactly with:'' @
     ''\<newline>    "'' @ no_information @ ''"''\<close>

text \<open>The category the resolver is to give: that of the first context entry, else the
  question's own, which may be null.\<close>

definition expected_category :: "SecurityQuestionRow \<Rightarrow> KnowledgeBaseRow list \<Rightarrow> string option" where
  "expected_category question context =
     (case context of kb # _ \<Rightarrow> Some (kb_category kb) | [] \<Rightarrow> sq_category question)"

text \<open>Three stored questions, a database holding them together with the seven entries and
  one answer of an earlier run, and environments in which the service answers every call,
  or fails on the second call.\<close>

definition questions3 :: "SecurityQuestionRow list" where
  "questions3 =
     [\<lparr>sq_id = ''q1'', sq_text = ''Key rotation'', sq_category = Some ''Privacy'',
       sq_created_at = ''2024-05-02T08:00:00.000Z''\<rparr>,
      \<lparr>sq_id = ''q2'', sq_text = ''Do you keep audit trails?'', sq_category = Some ''Privacy'',
       sq_created_at = ''2024-05-02T08:00:00.000Z''\<rparr>,
      \<lparr>sq_id = ''q3'', sq_text = ''Who approves access?'', sq_category = None,
       sq_created_at = ''2024-05-02T08:00:00.000Z''\<rparr>]"

definition old_answer :: GeneratedAnswerRow where
  "old_answer = \<lparr>ga_id = ''ans_0'', question_id = ''q1'', question_text = ''Key rotation'',
     answer_text = ''Yearly.'', ga_category = Some ''Keys'',
     ga_created_at = ''2024-05-02T09:00:00.000Z''\<rparr>"

definition db3 :: db where
  "db3 = \<lparr>knowledge_base = kb7, security_questions = questions3, generated_answers = [old_answer]\<rparr>"

definition completion_of :: "string \<Rightarrow> completion" where
  "completion_of t = Completion [Choice (Some (Message (Some t)))]"

definition env_ok :: "string \<Rightarrow> env" where
  "env_ok run =
     \<lparr>OPENAI_API_KEY = Some ''sk-test'',
      randomUUID = Some (\<lambda>n. run @ (if n = 0 then ''-a'' else if n = 1 then ''-b'' else ''-c'')),
      date_now = (\<lambda>n. 1714636800000 + int n),
      create_completion = (\<lambda>n sp up. Inr (completion_of ''Keys are rotated every year.''))\<rparr>"

definition env_fail2 :: env where
  "env_fail2 = (env_ok ''r1'')
     \<lparr>create_completion := (\<lambda>n sp up. if n = 1 then Inl (GenerationServiceError ''429 quota exceeded'')
                                        else Inr (completion_of ''Keys are rotated every year.''))\<rparr>"

text \<open>An environment whose service returns the same content on every call, and one on a
  platform without \<^verbatim>\<open>crypto.randomUUID\<close>, whose clock reads 08:00:00.400 on 2 May 2024 at the first
  iteration and 900 ms more at each further one.\<close>

definition env_reply :: "string \<Rightarrow> env" where
  "env_reply t = (env_ok ''r1'')\<lparr>create_completion := (\<lambda>n sp up. Inr (completion_of t))\<rparr>"



section \<open>The tokenizer\<close>

declare blocks.simps [simp del]

declare digits.simps [simp del]

lemma blocks_Nil: "blocks [] = []"
  by (simp add: blocks.simps)

lemma blocks_space: "is_space c \<Longrightarrow> blocks (c # cs) = blocks cs"
  by (subst blocks.simps, subst (2) blocks.simps) simp

lemma blocks_nonspace:
  "\<not> is_space c \<Longrightarrow>
     blocks (c # cs) = (c # takeWhile (\<lambda>c. \<not> is_space c) cs) # blocks (dropWhile (\<lambda>c. \<not> is_space c) cs)"
  by (subst blocks.simps) simp

text \<open>The first piece of the split is the text up to the first whitespace, and the non-empty
  ones among the others are the blocks of the rest.\<close>

lemma split_from_blocks_aux:
  "(\<exists>ts. split_from False cs = takeWhile (\<lambda>c. \<not> is_space c) cs # ts
         \<and> filter (\<lambda>t. t \<noteq> []) ts = blocks (dropWhile (\<lambda>c. \<not> is_space c) cs))
   \<and> filter (\<lambda>t. t \<noteq> []) (split_from True cs) = blocks cs"
proof (induction cs)
  case Nil
  show ?case by (simp add: blocks_Nil)
next
  case (Cons c cs)
  from Cons.IH obtain ts where
    f: "split_from False cs = takeWhile (\<lambda>c. \<not> is_space c) cs # ts" and
    b: "filter (\<lambda>t. t \<noteq> []) ts = blocks (dropWhile (\<lambda>c. \<not> is_space c) cs)" and
    t: "filter (\<lambda>t. t \<noteq> []) (split_from True cs) = blocks cs"
    by blast
  show ?case
  proof (cases "is_space c")
    case True
    with t show ?thesis by (simp add: blocks_space)
  next
    case False
    with f b show ?thesis by (simp add: blocks_nonspace)
  qed
qed

lemma split_ws_blocks: "filter (\<lambda>t. t \<noteq> []) (split_ws s) = blocks s"
proof (cases s)
  case Nil
  then show ?thesis by (simp add: split_ws_def blocks_Nil)
next
  case (Cons c cs)
  from split_from_blocks_aux [of cs] obtain ts where
    f: "split_from False cs = takeWhile (\<lambda>c. \<not> is_space c) cs # ts" and
    b: "filter (\<lambda>t. t \<noteq> []) ts = blocks (dropWhile (\<lambda>c. \<not> is_space c) cs)" and
    t: "filter (\<lambda>t. t \<noteq> []) (split_from True cs) = blocks cs"
    by blast
  show ?thesis
  proof (cases "is_space c")
    case True
    with t Cons show ?thesis by (simp add: split_ws_def blocks_space)
  next
    case False
    with f b Cons show ?thesis by (simp add: split_ws_def blocks_nonspace)
  qed
qed

text \<open>Two replacements that agree on what is whitespace and on every other character give
  the same pieces.\<close>

lemma split_from_map_cong:
  assumes "\<And>c. is_space (f c) = is_space (g c)"
      and "\<And>c. \<not> is_space (f c) \<Longrightarrow> f c = g c"
  shows "split_from b (map f xs) = split_from b (map g xs)"
proof (induction xs arbitrary: b)
  case Nil
  show ?case by simp
next
  case (Cons x xs)
  show ?case
  proof (cases "is_space (f x)")
    case True
    moreover from True have "is_space (g x)" using assms(1) [of x] by simp
    ultimately show ?thesis by (simp add: Cons.IH)
  next
    case False
    moreover from False have "\<not> is_space (g x)" using assms(1) [of x] by simp
    moreover from False have "f x = g x" by (rule assms(2))
    ultimately show ?thesis by (simp add: Cons.IH)
  qed
qed

lemma is_space_blank: "is_space (CHR '' '')"
  by (simp add: is_space_def)

text \<open>C6.  The tokenizer does what its contract says: for every text, \<^const>\<open>tokenize\<close>
  returns, in order, the tokens obtained by lowercasing the text, putting whitespace for
  every character outside \<^verbatim>\<open>[a-z0-9]\<close>, cutting at whitespace runs and dropping every token of
  length at most 2.  The text \<^verbatim>\<open>The User's Question!\<close> gives the tokens the, user, question,
  and the two-letter word \<^verbatim>\<open>to\<close> is dropped.\<close>

theorem tokenize_contract:
  "tokenize s = tokenize_spec s
   \<and> tokenize ''The User's Question!'' = [''the'', ''user'', ''question'']
   \<and> tokenize ''Go to the door'' = [''the'', ''door'']"
proof -
  let ?f = "\<lambda>c. if is_alnum c \<or> is_space c then c else CHR '' ''"
  let ?g = "\<lambda>c. if is_alnum c then c else CHR '' ''"
  have eq: "split_from False (map ?f xs) = split_from False (map ?g xs)" for xs
    by (rule split_from_map_cong) (auto simp: is_space_blank)
  have drop_empty:
    "filter (\<lambda>t. \<not> length t \<le> 2) (filter (\<lambda>t. t \<noteq> []) ys) = filter (\<lambda>t. length t > 2) ys"
    for ys :: "string list"
    by (induction ys) auto
  have "tokenize s = filter (\<lambda>t. length t > 2) (split_ws (map ?g (toLowerCase s)))"
    by (simp add: tokenize_def replace_other_def split_ws_def eq)
  also have "\<dots> = filter (\<lambda>t. \<not> length t \<le> 2)
                     (filter (\<lambda>t. t \<noteq> []) (split_ws (map ?g (toLowerCase s))))"
    by (simp only: drop_empty)
  also have "\<dots> = tokenize_spec s"
    by (simp only: split_ws_blocks tokenize_spec_def)
  finally have refine: "tokenize s = tokenize_spec s" .
  have ex1: "tokenize ''The User's Question!'' = [''the'', ''user'', ''question'']"
    by code_simp
  have ex2: "tokenize ''Go to the door'' = [''the'', ''door'']"
    by code_simp
  from refine ex1 ex2 show ?thesis by blast
qed

theorem tokenize_contract_witness:
  "tokenize_spec ''Is MFA on?'' = [''mfa'']"
proof -
  have "tokenize ''Is MFA on?'' = [''mfa'']"
    by code_simp
  with tokenize_contract [of "''Is MFA on?''"] show ?thesis by simp
qed

section \<open>The relevance scorer and the context selector\<close>

lemma fold_count: "fold (\<lambda>t s. if P t then s + 1 else s) ts (n::nat) = n + length (filter P ts)"
  by (induction ts arbitrary: n) auto

lemma score_row_count:
  "score (score_row qTokens r) =
     length (filter (\<lambda>t. t \<in> qTokens) (tokenize (kb_question r @ '' '' @ kb_answer r)))"
  by (simp add: score_row_def fold_count)

lemma row_score_row: "row (score_row qTokens r) = r"
  by (simp add: score_row_def)

text \<open>The comparator \<^verbatim>\<open>b.score - a.score\<close> makes the stable sort an insertion sort on the
  negated score.\<close>

lemma insert_by_insort:
  "insert_by (\<lambda>a b. int (score b) - int (score a)) x ys = insort_key (\<lambda>s. - int (score s)) x ys"
  by (induction ys) auto

lemma js_sort_sort_key:
  "js_sort (\<lambda>a b. int (score b) - int (score a)) xs = sort_key (\<lambda>s. - int (score s)) xs"
  by (induction xs) (simp_all add: js_sort_def sort_key_def insert_by_insort)

lemma slice0_take: "0 \<le> n \<Longrightarrow> slice0 n xs = take (nat n) xs"
  by (auto simp: slice0_def Let_def min_def)

lemma set_slice0: "set (slice0 n xs) \<subseteq> set xs"
  by (auto simp: slice0_def Let_def dest: in_set_takeD)

lemma rank_sort_key:
  "rank allKb q = sort_key (\<lambda>s. - int (score s))
     (filter (\<lambda>s. score s > 0) (map (score_row (set (tokenize q))) allKb))"
  by (simp add: rank_def js_sort_sort_key)

lemma rank_kb7:
  "map (\<lambda>x. (kb_id (row x), score x)) (rank kb7 ''Key rotation'')
     = [(''e1'', 5), (''e2'', 5), (''e7'', 4), (''e3'', 3), (''e5'', 2)]"
  by code_simp

text \<open>C4.  For every question text and knowledge-base entry, the score is the number of
  token occurrences in the tokenized text "stored question, blank, stored answer" that belong
  to the set of tokens of the question text; every selected pair carries this score of its own
  entry.  A token that occurs twice in the entry counts twice, a word repeated in the question
  counts no more than once: the entry with \<^verbatim>\<open>encrypt\<close> twice and \<^verbatim>\<open>data\<close> once scores 3 against
  a question with both words, and still 3 when the question says \<^verbatim>\<open>encrypt\<close> twice.\<close>

theorem score_semantics:
  "score (score_row (set (tokenize q)) r) =
     length (filter (\<lambda>t. t \<in> set (tokenize q)) (tokenize (kb_question r @ '' '' @ kb_answer r)))
   \<and> (\<forall>x \<in> set (getRelevantKbEntries allKb q m).
         row x \<in> set allKb \<and> x = score_row (set (tokenize q)) (row x))
   \<and> score (score_row (set (tokenize ''Do you encrypt data at rest?'')) kb_encrypt) = 3
   \<and> score (score_row (set (tokenize ''Encrypt, encrypt data'')) kb_encrypt) = 3"
proof -
  have sel: "\<forall>x \<in> set (getRelevantKbEntries allKb q m).
         row x \<in> set allKb \<and> x = score_row (set (tokenize q)) (row x)"
  proof
    fix x assume "x \<in> set (getRelevantKbEntries allKb q m)"
    then have "x \<in> set (rank allKb q)"
      using set_slice0 [of m "rank allKb q"] by (auto simp: getRelevantKbEntries_def)
    then obtain r where "r \<in> set allKb" "x = score_row (set (tokenize q)) r"
      by (auto simp: rank_sort_key)
    then show "row x \<in> set allKb \<and> x = score_row (set (tokenize q)) (row x)"
      by (simp add: row_score_row)
  qed
  have e1: "score (score_row (set (tokenize ''Do you encrypt data at rest?'')) kb_encrypt) = 3"
    by code_simp
  have e2: "score (score_row (set (tokenize ''Encrypt, encrypt data'')) kb_encrypt) = 3"
    by code_simp
  from score_row_count [of "set (tokenize q)" r] sel e1 e2 show ?thesis by blast
qed

theorem score_semantics_witness:
  "length (filter (\<lambda>t. t \<in> set (tokenize ''Key rotation''))
             (tokenize (kb_question (kb7 ! 6) @ '' '' @ kb_answer (kb7 ! 6)))) = 4
   \<and> hd (getRelevantKbEntries kb7 ''Key rotation'' 5) \<in> set (getRelevantKbEntries kb7 ''Key rotation'' 5)
   \<and> row (hd (getRelevantKbEntries kb7 ''Key rotation'' 5)) \<in> set kb7
   \<and> hd (getRelevantKbEntries kb7 ''Key rotation'' 5)
       = score_row (set (tokenize ''Key rotation'')) (row (hd (getRelevantKbEntries kb7 ''Key rotation'' 5)))"
proof -
  have "score (score_row (set (tokenize ''Key rotation'')) (kb7 ! 6)) = 4"
    by code_simp
  moreover have "getRelevantKbEntries kb7 ''Key rotation'' 5 \<noteq> []"
    by code_simp
  then have "hd (getRelevantKbEntries kb7 ''Key rotation'' 5) \<in> set (getRelevantKbEntries kb7 ''Key rotation'' 5)"
    by simp
  ultimately show ?thesis
    using score_semantics [of "''Key rotation''" "kb7 ! 6" kb7 5] by simp
qed

text \<open>C5.  For every question and knowledge base, and every maximum count that is not
  negative (5 when the caller gives none), the selector returns the first so many pairs of the
  ranking, and the ranking holds exactly the scored entries with a score above 0, sorted
  descending by score, the entries of equal score in the order the store gave them.  Seven
  entries with the scores 5, 5, 3, 0, 2, 0, 4 and the maximum 5 give the five entries with the
  scores 5, 5, 4, 3, 2, the two with score 5 in their original order.\<close>

theorem context_selection:
  assumes "0 \<le> maxEntries"
  shows "getRelevantKbEntries allKb q maxEntries = take (nat maxEntries) (rank allKb q)
    \<and> getRelevantKbEntries allKb q 5 = take 5 (rank allKb q)
    \<and> mset (rank allKb q) = mset (filter (\<lambda>x. score x > 0) (map (score_row (set (tokenize q))) allKb))
    \<and> sorted_wrt (\<lambda>a b. score a \<ge> score b) (rank allKb q)
    \<and> (\<forall>k. 0 < k \<longrightarrow> filter (\<lambda>x. score x = k) (rank allKb q)
                        = filter (\<lambda>x. score x = k) (map (score_row (set (tokenize q))) allKb))"
proof -
  let ?scored = "map (score_row (set (tokenize q))) allKb"
  let ?key = "\<lambda>s. - int (score s)"
  have a: "getRelevantKbEntries allKb q maxEntries = take (nat maxEntries) (rank allKb q)"
    using assms by (simp add: getRelevantKbEntries_def slice0_take)
  have a5: "getRelevantKbEntries allKb q 5 = take 5 (rank allKb q)"
    by (simp add: getRelevantKbEntries_def slice0_take)
  have b: "mset (rank allKb q) = mset (filter (\<lambda>x. score x > 0) ?scored)"
    by (simp add: rank_sort_key)
  have "sorted (map ?key (rank allKb q))"
    by (simp add: rank_sort_key)
  then have c: "sorted_wrt (\<lambda>a b. score a \<ge> score b) (rank allKb q)"
    by (simp add: sorted_map sorted_wrt_iff_nth_less)
  have d: "filter (\<lambda>x. score x = k) (rank allKb q) = filter (\<lambda>x. score x = k) ?scored"
    if "0 < k" for k
  proof -
    have "filter (\<lambda>x. ?key x = - int k) (rank allKb q)
            = filter (\<lambda>x. ?key x = - int k) (filter (\<lambda>x. score x > 0) ?scored)"
      unfolding rank_sort_key by (rule sort_key_stable)
    moreover have "(\<lambda>x::scored. ?key x = - int k) = (\<lambda>x. score x = k)" by auto
    moreover have "filter (\<lambda>x. score x = k) (filter (\<lambda>x. score x > 0) ?scored)
                     = filter (\<lambda>x. score x = k) ?scored"
      using that by (auto intro: filter_cong)
    ultimately show ?thesis by simp
  qed
  from a a5 b c d show ?thesis by blast
qed

theorem context_selection_witness:
  "(0::int) \<le> 5
   \<and> map (\<lambda>x. (kb_id (row x), score x)) (getRelevantKbEntries kb7 ''Key rotation'' 5)
       = [(''e1'', 5), (''e2'', 5), (''e7'', 4), (''e3'', 3), (''e5'', 2)]
   \<and> map (\<lambda>r. score (score_row (set (tokenize ''Key rotation'')) r)) kb7 = [5, 5, 3, 0, 2, 0, 4]"
proof -
  have h: "(0::int) \<le> 5" by simp
  have "getRelevantKbEntries kb7 ''Key rotation'' 5 = take (nat 5) (rank kb7 ''Key rotation'')"
    using context_selection [OF h, of kb7 "''Key rotation''"] by blast
  moreover have "length (rank kb7 ''Key rotation'') = 5"
    using arg_cong [OF rank_kb7, of length] by simp
  ultimately have "getRelevantKbEntries kb7 ''Key rotation'' 5 = rank kb7 ''Key rotation''"
    by simp
  moreover have "map (\<lambda>r. score (score_row (set (tokenize ''Key rotation'')) r)) kb7 = [5, 5, 3, 0, 2, 0, 4]"
    by code_simp
  ultimately show ?thesis using rank_kb7 by simp
qed

section \<open>Prompts, answer text and category\<close>

text \<open>Trimming a text that starts and ends with a character that is no whitespace removes
  the whitespace around it and nothing else.\<close>

lemma js_trim_core:
  assumes l: "\<forall>c \<in> set l. is_space c" and r: "\<forall>c \<in> set r. is_space c"
      and ne: "body \<noteq> []" and h: "\<not> is_space (hd body)" and t: "\<not> is_space (last body)"
  shows "js_trim (l @ body @ r) = body"
proof -
  from ne h have "dropWhile is_space body = body" by (cases body) auto
  with l have 1: "dropWhile is_space (l @ body @ r) = body @ r"
    using ne h by (cases body) (auto simp: dropWhile_append2)
  from ne t have "dropWhile is_space (rev body) = rev body"
    by (cases body rule: rev_cases) auto
  moreover from r have "dropWhile is_space (rev r @ rev body) = dropWhile is_space (rev body)"
    by (intro dropWhile_append2) simp
  ultimately have 2: "dropWhile is_space (rev r @ rev body) = rev body"
    by simp
  show ?thesis by (simp add: js_trim_def 1 2)
qed

lemma trim_no_information: "js_trim no_information = no_information"
  by code_simp

lemma systemPrompt_eq:
  \<open>systemPrompt =
     ''You are an information security analyst answering questionnaire questions '' @
     ''using ONLY the provided knowledge base.'' @
     ''\<newline>    If the knowledge base does not contain sufficient information to answer '' @
     ''a question, respond exactly with:'' @
     ''\<newline>    "'' @ no_information @ ''"'' @
     ''\<newline>    Do not invent policies or controls that are not in the context.'' @
     ''\<newline>    Answer in a concise but complete sentence or short paragraph as appropriate.''\<close>
  by code_simp

lemma userPrompt_eq:
  "userPrompt q ctx = user_body (sq_text q) (if ctx = [] then ''(none found)'' else contextBlocks ctx)"
proof -
  let ?blk = "if contextBlocks ctx = [] then ''(none found)'' else contextBlocks ctx"
  let ?l = "''\<newline>    ''"
  have sp: "\<forall>c \<in> set ?l. is_space c" by (simp add: is_space_def)
  have ne: "user_body (sq_text q) ?blk \<noteq> []" by (simp add: user_body_def)
  have h: "\<not> is_space (hd (user_body (sq_text q) ?blk))" by (simp add: user_body_def is_space_def)
  have t: "\<not> is_space (last (user_body (sq_text q) ?blk))" by (simp add: user_body_def is_space_def)
  have "userPrompt q ctx = js_trim (?l @ user_body (sq_text q) ?blk @ ?l)"
    by (simp add: userPrompt_def user_body_def no_information_def)
  also have "\<dots> = user_body (sq_text q) ?blk"
    by (rule js_trim_core [OF sp sp ne h t])
  finally have 1: "userPrompt q ctx = user_body (sq_text q) ?blk" .
  have "contextBlocks ctx = [] \<longleftrightarrow> ctx = []"
  proof (cases ctx)
    case Nil
    then show ?thesis by (simp add: contextBlocks_def)
  next
    case (Cons a as)
    then show ?thesis by (cases as) (simp_all add: contextBlocks_def)
  qed
  with 1 show ?thesis by simp
qed

lemma category_of_cases:
  "category_of q ctx = expected_category q ctx"
  by (cases ctx) (auto simp: category_of_def expected_category_def nullish_def index0_def split: option.splits)

lemma answer_cases:
  "answerText_of (Completion []) = no_information"
  "answerText_of (Completion (Choice None # cs)) = no_information"
  "answerText_of (Completion (Choice (Some (Message None)) # cs)) = no_information"
  "answerText_of (Completion (Choice (Some (Message (Some c))) # cs)) = js_trim c"
  by (simp_all add: answerText_of_def index0_def)

text \<open>C8.  For every question and context, the system message and the user message each
  contain the fallback sentence \<^verbatim>\<open>No information available in the knowledge base.\<close> in quotes;
  the user message is the fixed frame around the question text and the context block; with
  no selected entry the block is the marker \<^verbatim>\<open>(none found)\<close>, and with selected entries it is
  their non-empty rendering.\<close>

theorem prompt_complete:
  \<open>sublist (''"'' @ no_information @ ''"'') systemPrompt
   \<and> sublist (''"'' @ no_information @ ''"'') (userPrompt q ctx)
   \<and> userPrompt q ctx = user_body (sq_text q) (if ctx = [] then ''(none found)'' else contextBlocks ctx)
   \<and> userPrompt q [] =
        ''Security questionnaire question:\<newline>    "'' @ sq_text q @
        ''"\<newline>\<newline>    Relevant knowledge base entries:\<newline>    (none found)\<newline>\<newline>    '' @
        ''Using ONLY the information above, answer the question. If nothing is relevant, '' @
        ''reply exactly with:\<newline>    "No information available in the knowledge base."''
   \<and> (ctx \<noteq> [] \<longrightarrow> contextBlocks ctx \<noteq> [] \<and> sublist (contextBlocks ctx) (userPrompt q ctx))\<close>
proof -
  let ?lit = \<open>''"'' @ no_information @ ''"''\<close>
  have 1: "sublist ?lit systemPrompt"
    unfolding sublist_def
    by (rule exI [of _ "''You are an information security analyst answering questionnaire questions '' @
     ''using ONLY the provided knowledge base.'' @
     ''\<newline>    If the knowledge base does not contain sufficient information to answer '' @
     ''a question, respond exactly with:'' @ ''\<newline>    ''"],
        rule exI [of _ "''\<newline>    Do not invent policies or controls that are not in the context.'' @
     ''\<newline>    Answer in a concise but complete sentence or short paragraph as appropriate.''"])
       (simp add: systemPrompt_eq)
  have body: "sublist ?lit (user_body t blk)" for t blk
    unfolding sublist_def
    by (rule exI [of _ "''Security questionnaire question:'' @
     ''\<newline>    '' @ [CHR 0x22] @ t @ [CHR 0x22] @ ''\<newline>'' @ ''\<newline>    Relevant knowledge base entries:'' @
     ''\<newline>    '' @ blk @ ''\<newline>'' @
     ''\<newline>    Using ONLY the information above, answer the question. '' @
     ''If nothing is relevant, reply exactly with:'' @ ''\<newline>    ''"], rule exI [of _ "[]"])
       (simp add: user_body_def)
  have blk: "sublist blk (user_body t blk)" for t blk
    unfolding sublist_def
    by (rule exI [of _ "''Security questionnaire question:'' @
     ''\<newline>    '' @ [CHR 0x22] @ t @ [CHR 0x22] @ ''\<newline>'' @ ''\<newline>    Relevant knowledge base entries:'' @
     ''\<newline>    ''"], rule exI [of _ "''\<newline>'' @
     ''\<newline>    Using ONLY the information above, answer the question. '' @
     ''If nothing is relevant, reply exactly with:'' @ ''\<newline>    '' @ [CHR 0x22] @ no_information @ [CHR 0x22]"])
       (simp add: user_body_def)
  have 2: "sublist ?lit (userPrompt q ctx)"
    by (simp only: userPrompt_eq body)
  have 3: "userPrompt q [] =
        ''Security questionnaire question:\<newline>    '' @ [CHR 0x22] @ sq_text q @
        [CHR 0x22] @ ''\<newline>\<newline>    Relevant knowledge base entries:\<newline>    (none found)\<newline>\<newline>    '' @
        ''Using ONLY the information above, answer the question. If nothing is relevant, '' @
        ''reply exactly with:\<newline>    '' @ [CHR 0x22] @ ''No information available in the knowledge base.'' @ [CHR 0x22]"
    by (simp add: userPrompt_eq user_body_def no_information_def)
  have 4: "ctx \<noteq> [] \<longrightarrow> contextBlocks ctx \<noteq> [] \<and> sublist (contextBlocks ctx) (userPrompt q ctx)"
  proof
    assume ne: "ctx \<noteq> []"
    then obtain a as where "ctx = a # as" by (cases ctx) auto
    then have "contextBlocks ctx \<noteq> []" by (cases as) (simp_all add: contextBlocks_def)
    moreover have "sublist (contextBlocks ctx) (userPrompt q ctx)"
      using ne by (simp add: userPrompt_eq blk)
    ultimately show "contextBlocks ctx \<noteq> [] \<and> sublist (contextBlocks ctx) (userPrompt q ctx)" ..
  qed
  from 1 2 3 4 userPrompt_eq [of q ctx] show ?thesis by simp
qed


theorem prompt_complete_witness:
  \<open>[kb_encrypt] \<noteq> []
   \<and> contextBlocks [kb_encrypt] = ''- [kb1] (Encryption) Q: Encrypt storage?\<newline>  A: We encrypt all data.''
   \<and> sublist (contextBlocks [kb_encrypt]) (userPrompt (questions3 ! 0) [kb_encrypt])\<close>
proof -
  have cb: "contextBlocks [kb_encrypt] = ''- [kb1] (Encryption) Q: Encrypt storage?\<newline>  A: We encrypt all data.''"
    by code_simp
  have ne: "[kb_encrypt] \<noteq> []" by simp
  from prompt_complete [of "questions3 ! 0" "[kb_encrypt]"] ne
  have "sublist (contextBlocks [kb_encrypt]) (userPrompt (questions3 ! 0) [kb_encrypt])"
    by blast
  with cb ne show ?thesis by simp
qed

section \<open>The generation run\<close>


lemma minted_Cons: "minted e n (q # qs) = mint_id e n q # minted e (Suc n) qs"
  by (simp add: minted_def)

lemma insert_answer_Inr:
  "insert_answer r s = Inr s' \<longleftrightarrow>
     ga_id r \<notin> set (map ga_id (generated_answers s)) \<and> s' = s\<lparr>generated_answers := generated_answers s @ [r]\<rparr>"
  by (auto simp: insert_answer_def)

text \<open>One iteration either leaves the loop or goes on with one more stored answer.\<close>

lemma generate_loop_step:
  obtains (raised) err where "generate_loop e now n (q # qs) s c = (Inl err, s)"
  | (stored) t where
      "generate_loop e now n (q # qs) s c =
         generate_loop e now (Suc n) qs
           (s\<lparr>generated_answers := generated_answers s @
              [\<lparr>ga_id = mint_id e n q, question_id = sq_id q, question_text = sq_text q,
                answer_text = t,
                ga_category = expected_category q (map row (getRelevantKbEntries (knowledge_base s) (sq_text q) 5)),
                ga_created_at = now\<rparr>]\<rparr>) (Suc c)"
      "mint_id e n q \<notin> set (map ga_id (generated_answers s))"
      "\<exists>r. create_completion e n systemPrompt
              (userPrompt q (map row (getRelevantKbEntries (knowledge_base s) (sq_text q) 5))) = Inr r
           \<and> t = answerText_of r"
proof (cases "generateAnswerFromLlm e n q (map row (getRelevantKbEntries (knowledge_base s) (sq_text q) 5))")
  case (Inl err)
  then have "generate_loop e now n (q # qs) s c = (Inl err, s)" by (simp add: Let_def)
  then show ?thesis by (rule raised)
next
  case (Inr p)
  obtain t cat where p: "p = (t, cat)" by (cases p)
  with Inr have cat: "cat = expected_category q (map row (getRelevantKbEntries (knowledge_base s) (sq_text q) 5))"
    by (auto simp: generateAnswerFromLlm_def category_of_cases split: sum.splits)
  from Inr p have resp: "\<exists>r. create_completion e n systemPrompt
              (userPrompt q (map row (getRelevantKbEntries (knowledge_base s) (sq_text q) 5))) = Inr r
           \<and> t = answerText_of r"
    by (auto simp: generateAnswerFromLlm_def split: sum.splits)
  let ?r = "\<lparr>ga_id = mint_id e n q, question_id = sq_id q, question_text = sq_text q,
              answer_text = t, ga_category = cat, ga_created_at = now\<rparr>"
  show ?thesis
  proof (cases "insert_answer ?r s")
    case (Inl err)
    with Inr p have "generate_loop e now n (q # qs) s c = (Inl err, s)" by (simp add: Let_def)
    then show ?thesis by (rule raised)
  next
    case (Inr s1)
    then have s1: "s1 = s\<lparr>generated_answers := generated_answers s @ [?r]\<rparr>"
      and fresh: "mint_id e n q \<notin> set (map ga_id (generated_answers s))"
      by (simp_all add: insert_answer_Inr)
    from \<open>generateAnswerFromLlm e n q _ = Inr p\<close> p Inr
    have "generate_loop e now n (q # qs) s c = generate_loop e now (Suc n) qs s1 (Suc c)"
      by (simp add: Let_def)
    with s1 cat fresh resp show ?thesis by (intro stored [of t]) simp_all
  qed
qed

lemma generate_loop_tables:
  "generate_loop e now n qs s c = (res, s') \<Longrightarrow>
     knowledge_base s' = knowledge_base s \<and> security_questions s' = security_questions s"
proof (induction qs arbitrary: n s c)
  case Nil
  then show ?case by simp
next
  case (Cons q qs)
  show ?case
  proof (cases rule: generate_loop_step [of e now n q qs s c])
    case (raised err)
    with Cons.prems show ?thesis by simp
  next
    case (stored t)
    with Cons.prems show ?thesis using Cons.IH by fastforce
  qed
qed

lemma generate_loop_created_at:
  "generate_loop e now n qs s c = (res, s') \<Longrightarrow>
     \<forall>a \<in> set (generated_answers s). ga_created_at a = now \<Longrightarrow>
     \<forall>a \<in> set (generated_answers s'). ga_created_at a = now"
proof (induction qs arbitrary: n s c)
  case Nil
  then show ?case by simp
next
  case (Cons q qs)
  show ?case
  proof (cases rule: generate_loop_step [of e now n q qs s c])
    case (raised err)
    with Cons.prems show ?thesis by simp
  next
    case (stored t)
    let ?s1 = "s\<lparr>generated_answers := generated_answers s @
              [\<lparr>ga_id = mint_id e n q, question_id = sq_id q, question_text = sq_text q,
                answer_text = t,
                ga_category = expected_category q (map row (getRelevantKbEntries (knowledge_base s) (sq_text q) 5)),
                ga_created_at = now\<rparr>]\<rparr>"
    from stored(1) Cons.prems(1) have "generate_loop e now (Suc n) qs ?s1 (Suc c) = (res, s')" by simp
    moreover have "\<forall>a \<in> set (generated_answers ?s1). ga_created_at a = now"
      using Cons.prems(2) by auto
    ultimately show ?thesis by (rule Cons.IH)
  qed
qed

text \<open>Whatever the outcome, the answers a run leaves behind belong to a prefix of the
  questions, in order, each with the category the resolver is to give.\<close>

lemma generate_loop_prefix:
  "generate_loop e now n qs s c = (res, s') \<Longrightarrow>
     \<exists>k \<le> length qs.
        map question_id (generated_answers s') = map question_id (generated_answers s) @ map sq_id (take k qs)
      \<and> map ga_category (generated_answers s') = map ga_category (generated_answers s) @
           map (\<lambda>q. expected_category q (map row (getRelevantKbEntries (knowledge_base s) (sq_text q) 5)))
             (take k qs)"
proof (induction qs arbitrary: n s c)
  case Nil
  then show ?case by simp
next
  case (Cons q qs)
  show ?case
  proof (cases rule: generate_loop_step [of e now n q qs s c])
    case (raised err)
    with Cons.prems have "s' = s" by simp
    then show ?thesis by (intro exI [of _ 0]) simp
  next
    case (stored t)
    let ?s1 = "s\<lparr>generated_answers := generated_answers s @
              [\<lparr>ga_id = mint_id e n q, question_id = sq_id q, question_text = sq_text q,
                answer_text = t,
                ga_category = expected_category q (map row (getRelevantKbEntries (knowledge_base s) (sq_text q) 5)),
                ga_created_at = now\<rparr>]\<rparr>"
    from stored(1) Cons.prems(1) have "generate_loop e now (Suc n) qs ?s1 (Suc c) = (res, s')" by simp
    from Cons.IH [OF this] obtain k where k: "k \<le> length qs"
      "map question_id (generated_answers s') = map question_id (generated_answers ?s1) @ map sq_id (take k qs)"
      "map ga_category (generated_answers s') = map ga_category (generated_answers ?s1) @
           map (\<lambda>q. expected_category q (map row (getRelevantKbEntries (knowledge_base ?s1) (sq_text q) 5)))
             (take k qs)"
      by blast
    then show ?thesis by (intro exI [of _ "Suc k"]) simp
  qed
qed



lemma generate_loop_fails:
  "k < length qs \<Longrightarrow>
   service_answers e n k \<Longrightarrow>
   (\<forall>sp up. create_completion e (n + k) sp up = Inl err) \<Longrightarrow>
   distinct (map ga_id (generated_answers s) @ minted e n (take k qs)) \<Longrightarrow>
   \<exists>s'. generate_loop e now n qs s c = (Inl err, s')
     \<and> map question_id (generated_answers s') = map question_id (generated_answers s) @ map sq_id (take k qs)
     \<and> length (generated_answers s') = length (generated_answers s) + k"
proof (induction qs arbitrary: n k s c)
  case Nil
  then show ?case by simp
next
  case (Cons q qs)
  let ?ctx = "map row (getRelevantKbEntries (knowledge_base s) (sq_text q) 5)"
  show ?case
  proof (cases k)
    case 0
    with Cons.prems(3) have "create_completion e n systemPrompt (userPrompt q ?ctx) = Inl err" by simp
    with 0 show ?thesis by (simp add: Let_def generateAnswerFromLlm_def)
  next
    case (Suc k')
    from Cons.prems(2) Suc obtain r where r: "create_completion e n systemPrompt (userPrompt q ?ctx) = Inr r"
      unfolding service_answers_def by (metis le_refl less_add_Suc1 add_Suc_right)
    let ?r = "\<lparr>ga_id = mint_id e n q, question_id = sq_id q, question_text = sq_text q,
                answer_text = answerText_of r, ga_category = category_of q ?ctx, ga_created_at = now\<rparr>"
    let ?s1 = "s\<lparr>generated_answers := generated_answers s @ [?r]\<rparr>"
    from Cons.prems(4) Suc have fresh: "mint_id e n q \<notin> set (map ga_id (generated_answers s))"
      by (auto simp: minted_Cons)
    then have ins: "insert_answer ?r s = Inr ?s1" by (simp add: insert_answer_Inr)
    have 1: "k' < length qs" using Cons.prems(1) Suc by simp
    have 2: "service_answers e (Suc n) k'"
      using Cons.prems(2) Suc unfolding service_answers_def by auto
    have 3: "\<forall>sp up. create_completion e (Suc n + k') sp up = Inl err"
      using Cons.prems(3) Suc by simp
    have 4: "distinct (map ga_id (generated_answers ?s1) @ minted e (Suc n) (take k' qs))"
      using Cons.prems(4) Suc by (auto simp: minted_Cons)
    from Cons.IH [OF 1 2 3 4, of "Suc c"] obtain s' where
      "generate_loop e now (Suc n) qs ?s1 (Suc c) = (Inl err, s')"
      "map question_id (generated_answers s') = map question_id (generated_answers ?s1) @ map sq_id (take k' qs)"
      "length (generated_answers s') = length (generated_answers ?s1) + k'"
      by blast
    then show ?thesis
      using r ins Suc by (simp add: Let_def generateAnswerFromLlm_def)
  qed
qed

lemma select_questions_length: "length (select_questions s) = length (security_questions s)"
  by (simp add: select_questions_def)

lemma select_questions_update [simp]:
  "select_questions (s\<lparr>generated_answers := xs\<rparr>) = select_questions s"
  by (simp add: select_questions_def)

text \<open>A run that gets past its two checks is the loop on the emptied answer table.\<close>

lemma answers_generate_loop:
  assumes "key_configured e" "security_questions s \<noteq> []"
  shows "answers_generate e now s =
     (case generate_loop e now 0 (select_questions s) (s\<lparr>generated_answers := []\<rparr>) 0 of
        (Inr generatedCount, s') \<Rightarrow> (Reply 200 (Count generatedCount), s')
      | (Inl err, s') \<Rightarrow>
          (Reply 500 (Failure ''Failed to generate answers'' (Some (err_message err))), s'))"
proof -
  from assms(2) have "length (select_questions s) \<noteq> 0"
    by (simp add: select_questions_length)
  with assms(1) show ?thesis by (simp add: answers_generate_def Let_def)
qed

lemma const_key_sorted: "\<forall>x \<in> set xs. f x = (c::string) \<Longrightarrow> sorted (map f xs)"
  by (induction xs) auto

text \<open>The answers a run adds are produced, in order, by the calls for a prefix of the
  questions.\<close>

lemma generate_loop_produced:
  "generate_loop e now n qs s c = (res, s') \<Longrightarrow>
     \<exists>k \<le> length qs. \<exists>new.
        generated_answers s' = generated_answers s @ new
      \<and> list_all2 (produced_by e (knowledge_base s)) new (enumerate n (take k qs))"
proof (induction qs arbitrary: n s c)
  case Nil
  then show ?case by simp
next
  case (Cons q qs)
  show ?case
  proof (cases rule: generate_loop_step [of e now n q qs s c])
    case (raised err)
    with Cons.prems have "s' = s" by simp
    then show ?thesis by (intro exI [of _ 0] exI [of _ "[]"]) simp
  next
    case (stored t)
    let ?a = "\<lparr>ga_id = mint_id e n q, question_id = sq_id q, question_text = sq_text q,
                answer_text = t,
                ga_category = expected_category q (map row (getRelevantKbEntries (knowledge_base s) (sq_text q) 5)),
                ga_created_at = now\<rparr>"
    let ?s1 = "s\<lparr>generated_answers := generated_answers s @ [?a]\<rparr>"
    from stored(1) Cons.prems(1) have "generate_loop e now (Suc n) qs ?s1 (Suc c) = (res, s')" by simp
    from Cons.IH [OF this] obtain k new where k: "k \<le> length qs"
      and new: "generated_answers s' = generated_answers ?s1 @ new"
      and all: "list_all2 (produced_by e (knowledge_base ?s1)) new (enumerate (Suc n) (take k qs))"
      by blast
    from stored(3) have a: "produced_by e (knowledge_base s) ?a (n, q)"
      by (simp add: produced_by_def)
    from k new all a show ?thesis
      by (intro exI [of _ "Suc k"] exI [of _ "?a # new"]) simp
  qed
qed

lemma list_all2_left: "list_all2 P xs ys \<Longrightarrow> x \<in> set xs \<Longrightarrow> \<exists>y. P x y"
  by (induction rule: list_all2_induct) auto

text \<open>C3, as the code has it.  A completion whose first choice carries the fallback sentence
  gives that sentence unchanged; a completion with no first choice, no message or a null
  content gives the fallback sentence; any other content is trimmed, so an empty or blank
  content gives the empty answer text and not the fallback sentence.  What the assembly gives
  is the answer text of the per-question step, and it is the \<^verbatim>\<open>answer_text\<close> of the stored row:
  the answers a run leaves in the table belong, in order, to a prefix of the questions, and
  each carries the assembled text of the completion returned for its question.\<close>

theorem answer_text_assembly:
  "answerText_of (Completion (Choice (Some (Message (Some no_information))) # cs)) = no_information
   \<and> answerText_of (Completion []) = no_information
   \<and> answerText_of (Completion (Choice None # cs)) = no_information
   \<and> answerText_of (Completion (Choice (Some (Message None)) # cs)) = no_information
   \<and> answerText_of (Completion (Choice (Some (Message (Some c))) # cs)) = js_trim c
   \<and> (create_completion e n systemPrompt (userPrompt q ctx) = Inr r \<longrightarrow>
        (\<exists>cat. generateAnswerFromLlm e n q ctx = Inr (answerText_of r, cat)))
   \<and> (key_configured e \<and> security_questions s \<noteq> [] \<and> answers_generate e now s = (rep, s') \<longrightarrow>
        (\<exists>k \<le> length (select_questions s).
           list_all2 (produced_by e (knowledge_base s)) (generated_answers s')
             (enumerate 0 (take k (select_questions s)))))"
proof -
  have step: "answerText_of (Completion (Choice (Some (Message (Some no_information))) # cs)) = no_information
   \<and> answerText_of (Completion []) = no_information
   \<and> answerText_of (Completion (Choice None # cs)) = no_information
   \<and> answerText_of (Completion (Choice (Some (Message None)) # cs)) = no_information
   \<and> answerText_of (Completion (Choice (Some (Message (Some c))) # cs)) = js_trim c
   \<and> (create_completion e n systemPrompt (userPrompt q ctx) = Inr r \<longrightarrow>
        (\<exists>cat. generateAnswerFromLlm e n q ctx = Inr (answerText_of r, cat)))"
    by (simp add: answer_cases trim_no_information generateAnswerFromLlm_def)
  have run: "\<exists>k \<le> length (select_questions s).
           list_all2 (produced_by e (knowledge_base s)) (generated_answers s')
             (enumerate 0 (take k (select_questions s)))"
    if "key_configured e" "security_questions s \<noteq> []" "answers_generate e now s = (rep, s')"
  proof -
    obtain res s1 where l: "generate_loop e now 0 (select_questions s) (s\<lparr>generated_answers := []\<rparr>) 0 = (res, s1)"
      by (cases "generate_loop e now 0 (select_questions s) (s\<lparr>generated_answers := []\<rparr>) 0")
    with that have "s' = s1"
      by (cases res) (simp_all add: answers_generate_loop)
    with generate_loop_produced [OF l] show ?thesis by simp
  qed
  from step run show ?thesis by blast
qed

theorem answer_text_assembly_witness:
  "create_completion (env_reply no_information) 0 systemPrompt (userPrompt (questions3 ! 0) [])
     = Inr (completion_of no_information)
   \<and> (\<exists>cat. generateAnswerFromLlm (env_reply no_information) 0 (questions3 ! 0) []
               = Inr (no_information, cat))
   \<and> key_configured (env_reply no_information)
   \<and> map answer_text
        (generated_answers (snd (answers_generate (env_reply no_information) ''2024-05-03T10:00:00.000Z'' db3)))
       = [no_information, no_information, no_information]"
proof -
  let ?e = "env_reply no_information"
  let ?now = "''2024-05-03T10:00:00.000Z''"
  let ?s' = "snd (answers_generate ?e ?now db3)"
  note t = answer_text_assembly
    [where cs = "[]" and e = ?e and n = 0 and q = "questions3 ! 0" and ctx = "[]"
       and r = "completion_of no_information" and s = db3 and now = ?now
       and rep = "fst (answers_generate ?e ?now db3)" and s' = ?s']
  have reply: "create_completion ?e i sp up = Inr (completion_of no_information)" for i sp up
    by (simp add: env_reply_def)
  from t reply have gen: "\<exists>cat. generateAnswerFromLlm ?e 0 (questions3 ! 0) []
                      = Inr (answerText_of (completion_of no_information), cat)"
    by blast
  have sent: "answerText_of (completion_of no_information) = no_information"
    unfolding completion_of_def by (rule conjunct1 [OF t])
  have key: "key_configured ?e"
    by (simp add: key_configured_def env_reply_def env_ok_def)
  have ne: "security_questions db3 \<noteq> []" by (simp add: db3_def questions3_def)
  have run: "answers_generate ?e ?now db3 = (fst (answers_generate ?e ?now db3), ?s')" by simp
  from t key ne run obtain k where
    rows: "list_all2 (produced_by ?e (knowledge_base db3)) (generated_answers ?s')
             (enumerate 0 (take k (select_questions db3)))"
    by blast
  have all: "answer_text a = no_information" if "a \<in> set (generated_answers ?s')" for a
  proof -
    from list_all2_left [OF rows that] obtain iq where "produced_by ?e (knowledge_base db3) a iq"
      by blast
    then obtain r i sp up where "create_completion ?e i sp up = Inr r" "answer_text a = answerText_of r"
      by (cases iq) (auto simp: produced_by_def)
    with reply [of i sp up] sent show ?thesis by simp
  qed
  have len: "length (generated_answers ?s') = 3"
    by code_simp
  have "map answer_text (generated_answers ?s') = map (\<lambda>_. no_information) (generated_answers ?s')"
    using all by (intro map_cong) auto
  then have "map answer_text (generated_answers ?s') = replicate (length (generated_answers ?s')) no_information"
    by (simp add: map_replicate_const)
  then have texts: "map answer_text (generated_answers ?s') = [no_information, no_information, no_information]"
    by (simp add: len numeral_3_eq_3)
  from gen sent have "\<exists>cat. generateAnswerFromLlm ?e 0 (questions3 ! 0) [] = Inr (no_information, cat)"
    by simp
  with reply key texts show ?thesis by (intro conjI)
qed

text \<open>An empty content is no null content: the answer text is empty, in the result of the
  per-question step and in every row a run stores.\<close>

theorem empty_output_counterexample:
  "generateAnswerFromLlm ((env_ok ''r1'')\<lparr>create_completion := (\<lambda>n sp up. Inr (completion_of []))\<rparr>)
     0 (questions3 ! 2) [] = Inr ([], None)
   \<and> [] \<noteq> no_information
   \<and> create_completion (env_reply []) 0 systemPrompt
        (userPrompt (questions3 ! 0) (map row (getRelevantKbEntries kb7 (sq_text (questions3 ! 0)) 5)))
       = Inr (Completion [Choice (Some (Message (Some [])))])
   \<and> map answer_text
        (generated_answers (snd (answers_generate (env_reply []) ''2024-05-03T10:00:00.000Z'' db3)))
       = [[], [], []]"
proof -
  have "generateAnswerFromLlm ((env_ok ''r1'')\<lparr>create_completion := (\<lambda>n sp up. Inr (completion_of []))\<rparr>)
     0 (questions3 ! 2) [] = Inr ([], None) \<and> [] \<noteq> no_information"
    by (simp add: generateAnswerFromLlm_def answerText_of_def completion_of_def index0_def js_trim_def
        category_of_def nullish_def questions3_def no_information_def)
  moreover have "create_completion (env_reply []) 0 systemPrompt
        (userPrompt (questions3 ! 0) (map row (getRelevantKbEntries kb7 (sq_text (questions3 ! 0)) 5)))
       = Inr (Completion [Choice (Some (Message (Some [])))])"
    by (simp add: env_reply_def completion_of_def)
  moreover have "map answer_text
        (generated_answers (snd (answers_generate (env_reply []) ''2024-05-03T10:00:00.000Z'' db3)))
       = [[], [], []]"
    by code_simp
  ultimately show ?thesis by (intro conjI) simp_all
qed

















text \<open>C2.  Failure in the middle of a run.  If the service answers the first \<open>k\<close> calls of a
  run and raises on the next one, for a question that exists, and the identifiers minted so
  far differ, then the run reports the failure with the raised message and the answer table
  holds exactly the \<open>k\<close> answers of the questions processed before, in order.\<close>

theorem failure_keeps_earlier_answers:
  assumes "key_configured e" and "k < length (security_questions s)"
    and "service_answers e 0 k"
    and "\<forall>sp up. create_completion e k sp up = Inl err"
    and "distinct (minted e 0 (take k (select_questions s)))"
  shows "\<exists>s'. answers_generate e now s =
                (Reply 500 (Failure ''Failed to generate answers'' (Some (err_message err))), s')
    \<and> map question_id (generated_answers s') = map sq_id (take k (select_questions s))
    \<and> length (generated_answers s') = k"
proof -
  let ?qs = "select_questions s"
  from assms(2) have ne: "security_questions s \<noteq> []" by auto
  from assms(2) have k: "k < length ?qs" by (simp add: select_questions_length)
  from assms(4) have f: "\<forall>sp up. create_completion e (0 + k) sp up = Inl err" by simp
  from assms(5) have d: "distinct (map ga_id (generated_answers (s\<lparr>generated_answers := []\<rparr>)) @ minted e 0 (take k ?qs))"
    by simp
  from generate_loop_fails [OF k assms(3) f d, of now 0] obtain s' where
    "generate_loop e now 0 ?qs (s\<lparr>generated_answers := []\<rparr>) 0 = (Inl err, s')"
    "map question_id (generated_answers s') = map sq_id (take k ?qs)"
    "length (generated_answers s') = k"
    by auto
  then show ?thesis using assms(1) ne by (simp add: answers_generate_loop)
qed

text \<open>C10.  Every answer a run leaves in the table, whether the run succeeds or fails after
  its two checks, carries the one timestamp read before the loop.  So every arrangement of the
  run's answers is in ascending order of \<^verbatim>\<open>created_at\<close>: that key does not tell the answers of a
  run apart, and a listing ordered by it may return them in any order.\<close>

theorem one_timestamp_per_run:
  assumes "key_configured e" and "security_questions s \<noteq> []"
    and "answers_generate e now s = (rep, s')"
  shows "(\<forall>a \<in> set (generated_answers s'). ga_created_at a = now)
    \<and> (\<forall>ys. mset ys = mset (generated_answers s') \<longrightarrow> sorted (map ga_created_at ys))"
proof -
  obtain res s1 where l: "generate_loop e now 0 (select_questions s) (s\<lparr>generated_answers := []\<rparr>) 0 = (res, s1)"
    by (cases "generate_loop e now 0 (select_questions s) (s\<lparr>generated_answers := []\<rparr>) 0")
  with assms have "s' = s1"
    by (cases res) (simp_all add: answers_generate_loop)
  with generate_loop_created_at [OF l] have a: "\<forall>a \<in> set (generated_answers s'). ga_created_at a = now"
    by simp
  have b: "sorted (map ga_created_at ys)" if "mset ys = mset (generated_answers s')" for ys
  proof (rule const_key_sorted [of _ _ now])
    from that have "set ys = set (generated_answers s')" by (rule mset_eq_setD)
    with a show "\<forall>x \<in> set ys. ga_created_at x = now" by simp
  qed
  from a b show ?thesis by blast
qed

text \<open>C7.  The category of a generated answer is the category of the first selected context
  entry when there is one, whatever the question's own category is, and otherwise the
  question's own category, which is null when it is not set.  This holds for the result of
  the per-question step and for every answer a run stores.\<close>

theorem category_precedence:
  "expected_category q (kb # ctx') = Some (kb_category kb)
   \<and> expected_category q [] = sq_category q
   \<and> (generateAnswerFromLlm e n q ctx = Inr (t, cat) \<longrightarrow> cat = expected_category q ctx)
   \<and> (key_configured e \<and> security_questions s \<noteq> [] \<and> answers_generate e now s = (rep, s') \<longrightarrow>
        (\<exists>k \<le> length (select_questions s).
           map question_id (generated_answers s') = map sq_id (take k (select_questions s))
         \<and> map ga_category (generated_answers s') =
             map (\<lambda>q. expected_category q (map row (getRelevantKbEntries (knowledge_base s) (sq_text q) 5)))
               (take k (select_questions s))))"
proof -
  have 1: "generateAnswerFromLlm e n q ctx = Inr (t, cat) \<longrightarrow> cat = expected_category q ctx"
    by (auto simp: generateAnswerFromLlm_def category_of_cases split: sum.splits)
  have 2: "\<exists>k \<le> length (select_questions s).
           map question_id (generated_answers s') = map sq_id (take k (select_questions s))
         \<and> map ga_category (generated_answers s') =
             map (\<lambda>q. expected_category q (map row (getRelevantKbEntries (knowledge_base s) (sq_text q) 5)))
               (take k (select_questions s))"
    if "key_configured e" "security_questions s \<noteq> []" "answers_generate e now s = (rep, s')"
  proof -
    obtain res s1 where l: "generate_loop e now 0 (select_questions s) (s\<lparr>generated_answers := []\<rparr>) 0 = (res, s1)"
      by (cases "generate_loop e now 0 (select_questions s) (s\<lparr>generated_answers := []\<rparr>) 0")
    with that have "s' = s1"
      by (cases res) (simp_all add: answers_generate_loop)
    with generate_loop_prefix [OF l] show ?thesis by simp
  qed
  from 1 2 show ?thesis by (simp add: expected_category_def)
qed

section \<open>The runs on the example database\<close>

lemma env_ok_key: "key_configured (env_ok run)"
  by (simp add: key_configured_def env_ok_def)


lemma db3_questions: "security_questions db3 = questions3" "length questions3 = 3"
  by (simp_all add: db3_def questions3_def)

lemma select_db3: "select_questions db3 = questions3"
  by code_simp




lemma env_fail2_key: "key_configured env_fail2"
  by (simp add: key_configured_def env_fail2_def env_ok_def)

theorem failure_keeps_earlier_answers_witness:
  "service_answers env_fail2 0 1
   \<and> create_completion env_fail2 1 systemPrompt (userPrompt (questions3 ! 1) []) = Inl (GenerationServiceError ''429 quota exceeded'')
   \<and> (\<exists>s'. answers_generate env_fail2 ''2024-05-03T10:00:00.000Z'' db3 =
              (Reply 500 (Failure ''Failed to generate answers'' (Some ''429 quota exceeded'')), s')
         \<and> map question_id (generated_answers s') = [''q1'']
         \<and> length (generated_answers s') = 1)"
proof -
  have k: "1 < length (security_questions db3)" by (simp add: db3_questions)
  have sv: "service_answers env_fail2 0 1"
    by (simp add: service_answers_def env_fail2_def env_ok_def)
  have f: "\<forall>sp up. create_completion env_fail2 1 sp up = Inl (GenerationServiceError ''429 quota exceeded'')"
    by (simp add: env_fail2_def env_ok_def)
  have d: "distinct (minted env_fail2 0 (take 1 (select_questions db3)))"
    by code_simp
  have ids: "map sq_id (take 1 (select_questions db3)) = [''q1'']"
    by (simp add: select_db3 questions3_def)
  note t = failure_keeps_earlier_answers
    [OF env_fail2_key k sv f d, of "''2024-05-03T10:00:00.000Z''", unfolded ids err_message.simps]
  from f have "create_completion env_fail2 1 systemPrompt (userPrompt (questions3 ! 1) [])
                 = Inl (GenerationServiceError ''429 quota exceeded'')"
    by blast
  with sv t show ?thesis by (intro conjI)
qed

theorem one_timestamp_per_run_witness:
  "length (generated_answers (snd (answers_generate (env_ok ''r1'') ''2024-05-03T10:00:00.000Z'' db3))) = 3
   \<and> map ga_created_at (generated_answers (snd (answers_generate (env_ok ''r1'') ''2024-05-03T10:00:00.000Z'' db3)))
       = [''2024-05-03T10:00:00.000Z'', ''2024-05-03T10:00:00.000Z'', ''2024-05-03T10:00:00.000Z'']
   \<and> sorted (map ga_created_at (rev (generated_answers (snd (answers_generate (env_ok ''r1'') ''2024-05-03T10:00:00.000Z'' db3)))))"
proof -
  let ?now = "''2024-05-03T10:00:00.000Z''"
  let ?s' = "snd (answers_generate (env_ok ''r1'') ?now db3)"
  have ne: "security_questions db3 \<noteq> []" by (simp add: db3_questions questions3_def)
  have run: "answers_generate (env_ok ''r1'') ?now db3 = (fst (answers_generate (env_ok ''r1'') ?now db3), ?s')"
    by simp
  note t = one_timestamp_per_run [OF env_ok_key ne run]
  have len: "length (generated_answers ?s') = 3"
    by code_simp
  from t have all: "\<forall>a \<in> set (generated_answers ?s'). ga_created_at a = ?now" by blast
  have "map ga_created_at (generated_answers ?s') = map (\<lambda>_. ?now) (generated_answers ?s')"
    using all by (intro map_cong) auto
  then have "map ga_created_at (generated_answers ?s') = replicate (length (generated_answers ?s')) ?now"
    by (simp add: map_replicate_const)
  then have ts: "map ga_created_at (generated_answers ?s') = [?now, ?now, ?now]"
    by (simp add: len numeral_3_eq_3)
  have "mset (rev (generated_answers ?s')) = mset (generated_answers ?s')" by simp
  with t have so: "sorted (map ga_created_at (rev (generated_answers ?s')))" by blast
  from len ts so show ?thesis by blast
qed

theorem category_precedence_witness:
  "generateAnswerFromLlm (env_ok ''r1'') 0 (questions3 ! 0)
       (map row (getRelevantKbEntries kb7 (sq_text (questions3 ! 0)) 5))
     = Inr (''Keys are rotated every year.'', Some ''Keys'')
   \<and> sq_category (questions3 ! 0) = Some ''Privacy''
   \<and> map ga_category (generated_answers (snd (answers_generate (env_ok ''r1'') ''2024-05-03T10:00:00.000Z'' db3)))
       = [Some ''Keys'', Some ''Privacy'', None]"
proof -
  let ?q = "questions3 ! 0"
  let ?ctx = "map row (getRelevantKbEntries kb7 (sq_text ?q) 5)"
  have g: "generateAnswerFromLlm (env_ok ''r1'') 0 ?q ?ctx
             = Inr (''Keys are rotated every year.'', category_of ?q ?ctx)"
    by (simp add: generateAnswerFromLlm_def env_ok_def completion_of_def answerText_of_def index0_def)
       code_simp
  from category_precedence [where e = "env_ok ''r1''" and n = 0 and q = ?q and ctx = ?ctx
      and t = "''Keys are rotated every year.''" and cat = "category_of ?q ?ctx"] g
  have "category_of ?q ?ctx = expected_category ?q ?ctx" by blast
  moreover have "expected_category ?q ?ctx = Some ''Keys''"
    by code_simp
  moreover have "sq_category ?q = Some ''Privacy''"
    by (simp add: questions3_def)
  moreover have "map ga_category (generated_answers (snd (answers_generate (env_ok ''r1'') ''2024-05-03T10:00:00.000Z'' db3)))
       = [Some ''Keys'', Some ''Privacy'', None]"
    by code_simp
  ultimately show ?thesis using g by simp
qed

section \<open>Stored questions under the requests that write\<close>

lemma find_append_case:
  "find P (xs @ ys) = (case find P xs of Some x \<Rightarrow> Some x | None \<Rightarrow> find P ys)"
  by (induction xs) auto

lemma last_entry_Nil: "last_entry i [] = None"
  by (simp add: last_entry_def)

lemma last_entry_Cons:
  "last_entry i (q # qs) =
     (case last_entry i qs of Some x \<Rightarrow> Some x | None \<Rightarrow> if qe_id q = i then Some q else None)"
  by (simp add: last_entry_def find_append_case split: option.splits)

lemma find_upsert_question:
  "find (\<lambda>r. sq_id r = i) tbl = Some r \<Longrightarrow>
     find (\<lambda>r. sq_id r = i) (upsert_question new tbl) =
       Some (if sq_id new = i then r\<lparr>sq_text := sq_text new, sq_category := sq_category new\<rparr> else r)"
  by (induction tbl) (auto split: if_splits)

lemma find_fold_upsert:
  "find (\<lambda>r. sq_id r = i) tbl = Some r \<Longrightarrow>
     find (\<lambda>r. sq_id r = i)
       (fold (\<lambda>q. upsert_question \<lparr>sq_id = qe_id q, sq_text = qe_text q, sq_category = None, sq_created_at = now\<rparr>)
          questions tbl) =
       Some (case last_entry i questions of
               None \<Rightarrow> r
             | Some q \<Rightarrow> r\<lparr>sq_text := qe_text q, sq_category := None\<rparr>)"
proof (induction questions arbitrary: tbl r)
  case Nil
  then show ?case by (simp add: last_entry_Nil)
next
  case (Cons q qs)
  let ?new = "\<lparr>sq_id = qe_id q, sq_text = qe_text q, sq_category = None, sq_created_at = now\<rparr>"
  let ?r1 = "if qe_id q = i then r\<lparr>sq_text := qe_text q, sq_category := None\<rparr> else r"
  from find_upsert_question [OF Cons.prems, of ?new]
  have "find (\<lambda>r. sq_id r = i) (upsert_question ?new tbl) = Some ?r1" by simp
  from Cons.IH [OF this] show ?case
    by (auto simp: last_entry_Cons split: option.splits)
qed

text \<open>C9, as the code has it.  A stored question is never removed and keeps its id and its
  creation timestamp.  Its text and category are changed by one request only, the upload of
  a batch with an entry of the same id: the stored text becomes the text of the last such
  entry and the category becomes null.  Every other request that writes (the knowledge-base
  routes, a generation run, an upload without that id) leaves the stored question as it is.\<close>

theorem question_changes_only_by_upload:
  assumes "question_by_id i s = Some r"
  shows "question_by_id i (snd (handle req s)) =
     Some (case req of
             QuestionsUpload now questions \<Rightarrow>
               (case last_entry i questions of
                  None \<Rightarrow> r
                | Some q \<Rightarrow> r\<lparr>sq_text := qe_text q, sq_category := None\<rparr>)
           | _ \<Rightarrow> r)"
proof (cases req)
  case (KbUpload now entries)
  with assms show ?thesis by (simp add: kb_upload_def question_by_id_def)
next
  case (KbCreate now e)
  with assms show ?thesis by (simp add: kb_create_def question_by_id_def)
next
  case (KbUpdate now kbId category question answer)
  with assms show ?thesis
    by (simp add: kb_update_def question_by_id_def Let_def split: option.splits)
next
  case (KbDelete kbId)
  with assms show ?thesis by (simp add: kb_delete_def question_by_id_def)
next
  case (QuestionsUpload now questions)
  with assms show ?thesis
    by (simp add: questions_upload_def question_by_id_def find_fold_upsert)
next
  case (AnswersGenerate e now)
  obtain rep s' where run: "answers_generate e now s = (rep, s')"
    by (cases "answers_generate e now s")
  have "security_questions s' = security_questions s"
  proof (cases "key_configured e \<and> security_questions s \<noteq> []")
    case True
    obtain res s1 where l: "generate_loop e now 0 (select_questions s) (s\<lparr>generated_answers := []\<rparr>) 0 = (res, s1)"
      by (cases "generate_loop e now 0 (select_questions s) (s\<lparr>generated_answers := []\<rparr>) 0")
    with True run have "s' = s1"
      by (cases res) (simp_all add: answers_generate_loop)
    with generate_loop_tables [OF l] show ?thesis by simp
  next
    case False
    with run show ?thesis
      by (auto simp: answers_generate_def Let_def select_questions_def split: if_splits)
  qed
  with assms run AnswersGenerate show ?thesis by (simp add: question_by_id_def)
qed

theorem question_changes_only_by_upload_witness:
  "question_by_id ''q1'' db3 = Some (questions3 ! 0)
   \<and> question_by_id ''q1''
        (snd (handle (QuestionsUpload ''2024-06-01T00:00:00.000Z''
                       [\<lparr>qe_id = ''q1'', qe_text = ''Are keys rotated?''\<rparr>]) db3))
       = Some \<lparr>sq_id = ''q1'', sq_text = ''Are keys rotated?'', sq_category = None,
               sq_created_at = ''2024-05-02T08:00:00.000Z''\<rparr>
   \<and> question_by_id ''q1'' (snd (handle (KbDelete ''e1'') db3)) = Some (questions3 ! 0)"
proof -
  have q: "question_by_id ''q1'' db3 = Some (questions3 ! 0)"
    by (simp add: question_by_id_def db3_def questions3_def)
  have l: "last_entry ''q1'' [\<lparr>qe_id = ''q1'', qe_text = ''Are keys rotated?''\<rparr>]
             = Some \<lparr>qe_id = ''q1'', qe_text = ''Are keys rotated?''\<rparr>"
    by (simp add: last_entry_def)
  from question_changes_only_by_upload [OF q,
      of "QuestionsUpload ''2024-06-01T00:00:00.000Z'' [\<lparr>qe_id = ''q1'', qe_text = ''Are keys rotated?''\<rparr>]"]
    question_changes_only_by_upload [OF q, of "KbDelete ''e1''"] q
  show ?thesis by (simp add: l questions3_def)
qed

text \<open>Uploading an entry with the id of a stored question replaces its text and resets its
  category.\<close>

theorem upload_overwrites_counterexample:
  "question_by_id ''q1'' db3
     = Some \<lparr>sq_id = ''q1'', sq_text = ''Key rotation'', sq_category = Some ''Privacy'',
             sq_created_at = ''2024-05-02T08:00:00.000Z''\<rparr>
   \<and> question_by_id ''q1''
        (snd (questions_upload ''2024-06-01T00:00:00.000Z''
                [\<lparr>qe_id = ''q1'', qe_text = ''Are keys rotated?''\<rparr>] db3))
       = Some \<lparr>sq_id = ''q1'', sq_text = ''Are keys rotated?'', sq_category = None,
               sq_created_at = ''2024-05-02T08:00:00.000Z''\<rparr>"
  by (simp add: question_by_id_def questions_upload_def db3_def questions3_def)

end
